theory Spec2Isabelle
  imports
    Complex_Main
    "HOL-Library.Log_Nat"
    "HOL-Library.Multiset"
    "HOL-Library.Char_ord"
    "HOL-Library.List_Lexorder"
    "HOL-Library.Product_Lexorder"
begin

unbundle bit_operations_syntax

section \<open>Values, errors and constants of \<^verbatim>\<open>scheduler.py\<close>\<close>

text \<open>
  The scheduler receives plain Python data (in the web application: decoded JSON).
  \<open>pyval\<close> is the part of Python's value universe that the code inspects with
  \<^verbatim>\<open>isinstance\<close>, \<^verbatim>\<open>is None\<close> and \<^verbatim>\<open>in\<close>. A dictionary is an association list
  in insertion order; its keys are strings (an employee identifier, a day name, a shift name),
  so the two \<^verbatim>\<open>isinstance(key, str)\<close> tests of the source always succeed.
  \<open>POther\<close> stands for every value of another type (a float, a tuple, ...): the code
  rejects it wherever it meets one. A character is one of the 256 code points 0..255.
\<close>

datatype pyval =
    PNone
  | PBool bool
  | PInt int
  | PStr string
  | PList "pyval list"
  | PDict "(string \<times> pyval) list"
  | POther

text \<open>
  Every \<^verbatim>\<open>raise ValueError\<close> of \<^verbatim>\<open>collect_employee_preferences\<close> and the type check at
  the head of \<^verbatim>\<open>generate_schedule\<close> is \<open>InvalidInput\<close>; the \<^verbatim>\<open>ValueError\<close> of
  \<^verbatim>\<open>generate_schedule\<close> for fewer than six employees is \<open>InsufficientStaff\<close>.
  \<open>IndexError\<close> and \<open>KeyError\<close> are what list indexing and dictionary lookup raise.
\<close>

datatype error = InvalidInput | InsufficientStaff | IndexError | KeyError

definition DAYS_OF_WEEK :: "string list" where
  "DAYS_OF_WEEK =
     [''Monday'', ''Tuesday'', ''Wednesday'', ''Thursday'', ''Friday'', ''Saturday'', ''Sunday'']"

definition VALID_SHIFTS :: "string list" where
  "VALID_SHIFTS = [''morning'', ''afternoon'', ''evening'']"

section \<open>String helpers: \<^verbatim>\<open>str.lower\<close> and \<^verbatim>\<open>str.strip\<close>\<close>

definition is_space :: "char \<Rightarrow> bool" where
  "is_space c =
     (let n = (of_char c :: nat)
      in (9 \<le> n \<and> n \<le> 13) \<or> (28 \<le> n \<and> n \<le> 32) \<or> n = 133 \<or> n = 160)"

definition lower_char :: "char \<Rightarrow> char" where
  "lower_char c =
     (let n = (of_char c :: nat)
      in if (65 \<le> n \<and> n \<le> 90) \<or> (192 \<le> n \<and> n \<le> 222 \<and> n \<noteq> 215)
         then char_of (n + 32) else c)"

definition lower :: "string \<Rightarrow> string" where
  "lower s = map lower_char s"

definition strip :: "string \<Rightarrow> string" where
  "strip s = rev (dropWhile is_space (rev (dropWhile is_space s)))"

section \<open>The preference normalizer\<close>

text \<open>Lines 56-60: the shifts other than \<open>s\<close> get priorities 2, 3 in the order of \<open>VALID_SHIFTS\<close>.\<close>

fun rank_others :: "string list \<Rightarrow> string \<Rightarrow> int \<Rightarrow> (string \<times> int) list" where
  "rank_others [] s p = []"
| "rank_others (other # rest) s p =
     (if other \<noteq> s then (other, p) # rank_others rest s (p + 1) else rank_others rest s p)"

text \<open>Lines 61-62 and 91-92: \<^verbatim>\<open>sorted(priorities.items(), key=lambda x: (x[1], x[0]))\<close>, names kept.\<close>

definition sorted_names :: "(string \<times> int) list \<Rightarrow> string list" where
  "sorted_names priorities = map fst (sort_key (\<lambda>x. (snd x, fst x)) priorities)"

text \<open>\<^verbatim>\<open>isinstance(p, int)\<close>: Python's \<^verbatim>\<open>bool\<close> is a subclass of \<^verbatim>\<open>int\<close>, with \<^verbatim>\<open>True == 1\<close>.\<close>

fun as_int :: "pyval \<Rightarrow> int option" where
  "as_int (PInt n) = Some n"
| "as_int (PBool b) = Some (if b then 1 else 0)"
| "as_int _ = None"

text \<open>Lines 72-86: the loop over the entries of a priority map.\<close>

fun collect_priorities ::
  "(string \<times> pyval) list \<Rightarrow> (string \<times> int) list \<Rightarrow> nat \<Rightarrow> string set
     \<Rightarrow> error + (string \<times> int) list" where
  "collect_priorities [] priorities pref_count seen_shifts = Inr priorities"
| "collect_priorities ((shift_name, p) # rest) priorities pref_count seen_shifts =
     (let s_lower = strip (lower shift_name) in
      if s_lower \<notin> set VALID_SHIFTS then Inl InvalidInput
      else if s_lower \<in> seen_shifts then Inl InvalidInput
      else if pref_count + 1 > 2 then Inl InvalidInput
      else (case as_int p of
              None \<Rightarrow> Inl InvalidInput
            | Some n \<Rightarrow>
                if n < 1 then Inl InvalidInput
                else collect_priorities rest (priorities @ [(s_lower, n)])
                       (pref_count + 1) (insert s_lower seen_shifts)))"

text \<open>\<^verbatim>\<open>max(values, default=d)\<close>.\<close>

fun py_max :: "int list \<Rightarrow> int \<Rightarrow> int" where
  "py_max [] d = d"
| "py_max (x # xs) d = fold max xs x"

text \<open>Lines 88-90: every shift without a priority gets the default one.\<close>

fun fill_defaults :: "string list \<Rightarrow> (string \<times> int) list \<Rightarrow> int \<Rightarrow> (string \<times> int) list" where
  "fill_defaults [] priorities default_p = priorities"
| "fill_defaults (s # ss) priorities default_p =
     (if s \<notin> fst ` set priorities
      then fill_defaults ss (priorities @ [(s, default_p)]) default_p
      else fill_defaults ss priorities default_p)"

text \<open>\<^verbatim>\<open>s in VALID_SHIFTS\<close> for an element of a list-form preference, and its string.\<close>

fun in_valid_shifts :: "pyval \<Rightarrow> bool" where
  "in_valid_shifts (PStr s) = (s \<in> set VALID_SHIFTS)"
| "in_valid_shifts _ = False"

fun str_of :: "pyval \<Rightarrow> string" where
  "str_of (PStr s) = s"
| "str_of _ = []"

text \<open>
  Lines 47-92, the body of the loop over one employee's days: the normalized preference
  of one raw preference value, in the order of the source's tests. \<open>str_of\<close> is applied only
  to elements that passed \<open>in_valid_shifts\<close>, which are strings.
\<close>

fun normalize_pref :: "pyval \<Rightarrow> error + string list" where
  "normalize_pref PNone = Inr (sort VALID_SHIFTS)"
| "normalize_pref (PDict []) = Inr (sort VALID_SHIFTS)"
| "normalize_pref (PStr pri_map) =
     (let s = strip (lower pri_map) in
      if s \<notin> set VALID_SHIFTS then Inl InvalidInput
      else Inr (sorted_names ((s, 1) # rank_others VALID_SHIFTS s 2)))"
| "normalize_pref (PList pri_map) =
     (if length pri_map = length VALID_SHIFTS \<and> list_all in_valid_shifts pri_map
      then Inr (map str_of pri_map)
      else Inl InvalidInput)"
| "normalize_pref (PDict pri_map) =
     (case collect_priorities pri_map [] 0 {} of
        Inl e \<Rightarrow> Inl e
      | Inr priorities \<Rightarrow>
          (let default_p = (if priorities \<noteq> [] then py_max (map snd priorities) 0 + 10 else 1)
           in Inr (sorted_names (fill_defaults VALID_SHIFTS priorities default_p))))"
| "normalize_pref _ = Inl InvalidInput"

text \<open>Lines 44-92: the loop over the entries of one employee's day map.\<close>

fun normalize_days :: "(string \<times> pyval) list \<Rightarrow> error + (string \<times> string list) list" where
  "normalize_days [] = Inr []"
| "normalize_days ((day, pri_map) # rest) =
     (if day \<notin> set DAYS_OF_WEEK then Inl InvalidInput
      else (case normalize_pref pri_map of
              Inl e \<Rightarrow> Inl e
            | Inr ranked \<Rightarrow>
                (case normalize_days rest of
                   Inl e \<Rightarrow> Inl e
                 | Inr ds \<Rightarrow> Inr ((day, ranked) # ds))))"

text \<open>Lines 94-96: every day is present with a list of length 3.\<close>

definition post_check :: "(string \<times> string list) list \<Rightarrow> bool" where
  "post_check normalized =
     list_all (\<lambda>day. case map_of normalized day of None \<Rightarrow> False | Some l \<Rightarrow> length l = 3)
       DAYS_OF_WEEK"

text \<open>Lines 36-96: one iteration of the loop over the employees.\<close>

fun collect_employee ::
  "string \<times> pyval \<Rightarrow> error + (string \<times> (string \<times> string list) list)" where
  "collect_employee (emp_name, PDict day_map) =
     (if strip emp_name = [] then Inl InvalidInput
      else if \<not> list_all (\<lambda>required_day. required_day \<in> fst ` set day_map) DAYS_OF_WEEK
      then Inl InvalidInput
      else (case normalize_days day_map of
              Inl e \<Rightarrow> Inl e
            | Inr normalized \<Rightarrow> if post_check normalized then Inr (emp_name, normalized) else Inl InvalidInput))"
| "collect_employee (emp_name, _) = Inl InvalidInput"

fun collect_employees ::
  "(string \<times> pyval) list \<Rightarrow> error + (string \<times> (string \<times> string list) list) list" where
  "collect_employees [] = Inr []"
| "collect_employees (entry # rest) =
     (case collect_employee entry of
        Inl e \<Rightarrow> Inl e
      | Inr n \<Rightarrow>
          (case collect_employees rest of
             Inl e \<Rightarrow> Inl e
           | Inr ns \<Rightarrow> Inr (n # ns)))"

text \<open>
  \<^verbatim>\<open>collect_employee_preferences\<close>. The result is the dictionary \<^verbatim>\<open>normalized\<close> in
  insertion order: employee name, then day, then the ranked list of shifts.
\<close>

fun collect_employee_preferences ::
  "pyval \<Rightarrow> error + (string \<times> (string \<times> string list) list) list" where
  "collect_employee_preferences (PDict raw_preferences) =
     (if raw_preferences = [] then Inl InvalidInput
      else let emp_names = map (\<lambda>n. lower (strip n)) (map fst raw_preferences) in
        if length emp_names \<noteq> length (remdups emp_names) then Inl InvalidInput
        else collect_employees raw_preferences)"
| "collect_employee_preferences _ = Inl InvalidInput"

text \<open>
  The dictionary comprehension \<^verbatim>\<open>{d: v for d in DAYS_OF_WEEK}\<close> with which the test suites
  build a week; used here to write concrete inputs.
\<close>

definition same_every_day :: "'a \<Rightarrow> (string \<times> 'a) list" where
  "same_every_day v = map (\<lambda>day. (day, v)) DAYS_OF_WEEK"

section \<open>The deterministic tie-breaker\<close>

text \<open>
  Lines 15-17: one step of the generator on Python's unbounded integers. \<^verbatim>\<open><<\<close> is
  \<open>push_bit\<close>, \<^verbatim>\<open>>>\<close> is \<open>drop_bit\<close> (floor division by a power of two), \<^verbatim>\<open>^\<close> is \<open>XOR\<close>.
\<close>

definition xorshift :: "int \<Rightarrow> int" where
  "xorshift random_seed =
     (let s1 = random_seed XOR (push_bit 13 random_seed AND 0xFFFFFFFF);
          s2 = s1 XOR drop_bit 17 s1;
          s3 = s2 XOR (push_bit 5 s2 AND 0xFFFFFFFF)
      in s3)"

text \<open>
  Line 18 returns the float \<^verbatim>\<open>abs(random_seed) % 1000 / 1000\<close> and line 21 computes
  \<^verbatim>\<open>int(pseudo_random() * m)\<close>. Python's floats are IEEE 754 binary64 numbers: the true
  division and the product are each rounded to the nearest number with a 53-bit
  significand, ties to even. \<open>fl\<close> is that rounding on the rationals; the numbers that occur
  here lie between \<open>1/1000\<close> and the length of a list, far from the subnormal range and from
  overflow, so the exponent needs no bound. \<open>binade q\<close> is the \<open>b\<close> with
  \<open>2^b \<le> q < 2^(b+1)\<close>.
\<close>

definition pow2 :: "int \<Rightarrow> rat" where
  "pow2 e = (if 0 \<le> e then 2 ^ nat e else 1 / 2 ^ nat (- e))"

definition round_half_even :: "rat \<Rightarrow> int" where
  "round_half_even q =
     (let f = \<lfloor>q\<rfloor>; d = q - of_int f
      in if d < 1 / 2 then f else if 1 / 2 < d then f + 1 else if even f then f else f + 1)"

definition binade :: "rat \<Rightarrow> int" where
  "binade q =
     (if 1 \<le> q then int (floorlog 2 (nat \<lfloor>q\<rfloor>)) - 1
      else - int (floorlog 2 (nat (\<lceil>1 / q\<rceil> - 1))))"

definition fl :: "rat \<Rightarrow> rat" where
  "fl q =
     (if q \<le> 0 then 0
      else let e = binade q - 52 in of_int (round_half_even (q / pow2 e)) * pow2 e)"

text \<open>
  The index drawn at line 21 from the generator state \<open>random_seed\<close> (after the step) for
  the loop counter \<open>m\<close>: \<^verbatim>\<open>int\<close> truncates, and the product is not negative.
\<close>

definition rand_index :: "int \<Rightarrow> nat \<Rightarrow> nat" where
  "rand_index random_seed m =
     nat \<lfloor>fl (fl (of_int (\<bar>random_seed\<bar> mod 1000) / 1000) * fl (of_nat m))\<rfloor>"

text \<open>
  Lines 19-24: the loop \<^verbatim>\<open>while m\<close>. The swap \<^verbatim>\<open>arr[m], arr[i] = arr[i], arr[m]\<close> reads both
  elements, then writes \<^verbatim>\<open>arr[m]\<close>, then \<^verbatim>\<open>arr[i]\<close>; an index outside the list raises
  \<^verbatim>\<open>IndexError\<close>.
\<close>

fun shuffle_loop :: "nat \<Rightarrow> int \<Rightarrow> 'a list \<Rightarrow> error + 'a list" where
  "shuffle_loop 0 random_seed arr = Inr arr"
| "shuffle_loop (Suc m) random_seed arr =
     (let random_seed' = xorshift random_seed;
          i = rand_index random_seed' (Suc m)
      in if i < length arr \<and> m < length arr
         then shuffle_loop m random_seed' (arr[m := arr ! i, i := arr ! m])
         else Inl IndexError)"

definition deterministic_shuffle :: "'a list \<Rightarrow> int \<Rightarrow> error + 'a list" where
  "deterministic_shuffle arr seed = shuffle_loop (length arr) seed arr"

section \<open>The assignment engine\<close>

text \<open>
  The mutable state of one run of \<^verbatim>\<open>generate_schedule\<close> while it fills one cell:
  \<open>shift_list\<close> is \<^verbatim>\<open>schedule[day][shift]\<close>, the three other fields are the variables of the
  same names. \<open>last_resort_cells\<close> is not a variable of the source: it records the cells
  (day, shift) at which the branch of line 149 (the final fallback) was entered.
\<close>

record cell_state =
  shift_list :: "string list"
  assigned_count :: "string \<Rightarrow> nat"
  assigned_today :: "string set"
  placed :: nat
  last_resort_cells :: "(string \<times> string) list"

text \<open>\<^verbatim>\<open>preferences[emp][day]\<close> (line 116); a missing key raises \<^verbatim>\<open>KeyError\<close>.\<close>

definition lookup_pref ::
  "(string \<times> (string \<times> string list) list) list \<Rightarrow> string \<Rightarrow> string \<Rightarrow> error + string list" where
  "lookup_pref preferences emp day =
     (case map_of preferences emp of
        None \<Rightarrow> Inl KeyError
      | Some day_map \<Rightarrow>
          (case map_of day_map day of None \<Rightarrow> Inl KeyError | Some pref_list \<Rightarrow> Inr pref_list))"

text \<open>\<^verbatim>\<open>pref_list.index(shift)\<close>, with \<open>None\<close> for its \<^verbatim>\<open>ValueError\<close>; lines 117-120.\<close>

fun py_index :: "'a list \<Rightarrow> 'a \<Rightarrow> nat option" where
  "py_index [] x = None"
| "py_index (y # ys) x = (if y = x then Some 0 else map_option Suc (py_index ys x))"

definition rank_of :: "string list \<Rightarrow> string \<Rightarrow> nat" where
  "rank_of pref_list shift =
     (case py_index pref_list shift of Some r \<Rightarrow> r | None \<Rightarrow> length VALID_SHIFTS)"

text \<open>
  Lines 112-121: the employees that are under the cap and not placed today, each with its
  rank, in the order of \<open>employees\<close>. The dictionary \<^verbatim>\<open>rank_map\<close> is read off this list:
  \<^verbatim>\<open>rank_map[r]\<close> is the list of the employees of rank \<open>r\<close>, in this order.
\<close>

fun ranked_candidates ::
  "(string \<times> (string \<times> string list) list) list \<Rightarrow> string \<Rightarrow> string \<Rightarrow> (string \<Rightarrow> nat)
     \<Rightarrow> string set \<Rightarrow> string list \<Rightarrow> error + (string \<times> nat) list" where
  "ranked_candidates preferences day shift cnt today [] = Inr []"
| "ranked_candidates preferences day shift cnt today (emp # rest) =
     (if cnt emp \<ge> 5 \<or> emp \<in> today
      then ranked_candidates preferences day shift cnt today rest
      else (case lookup_pref preferences emp day of
              Inl e \<Rightarrow> Inl e
            | Inr pref_list \<Rightarrow>
                (case ranked_candidates preferences day shift cnt today rest of
                   Inl e \<Rightarrow> Inl e
                 | Inr rs \<Rightarrow> Inr ((emp, rank_of pref_list shift) # rs))))"

text \<open>Lines 123-126: the groups in ascending rank, each shuffled with seed 1.\<close>

fun flatten_ranks :: "nat list \<Rightarrow> (string \<times> nat) list \<Rightarrow> error + string list" where
  "flatten_ranks [] rank_map = Inr []"
| "flatten_ranks (r # rs) rank_map =
     (case deterministic_shuffle (map fst (filter (\<lambda>x. snd x = r) rank_map)) 1 of
        Inl e \<Rightarrow> Inl e
      | Inr shuffled \<Rightarrow>
          (case flatten_ranks rs rank_map of
             Inl e \<Rightarrow> Inl e
           | Inr ordered \<Rightarrow> Inr (shuffled @ ordered)))"

definition ordered_candidates ::
  "(string \<times> (string \<times> string list) list) list \<Rightarrow> string list \<Rightarrow> string \<Rightarrow> string
     \<Rightarrow> cell_state \<Rightarrow> error + string list" where
  "ordered_candidates preferences employees day shift st =
     (case ranked_candidates preferences day shift (assigned_count st) (assigned_today st)
             employees of
        Inl e \<Rightarrow> Inl e
      | Inr rank_map \<Rightarrow> flatten_ranks (sort (remdups (map snd rank_map))) rank_map)"

text \<open>Lines 132-135 and 144-147: one assignment that marks the employee placed today.\<close>

definition assign :: "string \<Rightarrow> cell_state \<Rightarrow> cell_state" where
  "assign emp st =
     st\<lparr>shift_list := shift_list st @ [emp],
        assigned_count := (assigned_count st)(emp := assigned_count st emp + 1),
        assigned_today := insert emp (assigned_today st),
        placed := placed st + 1\<rparr>"

text \<open>Lines 154-156: one assignment of the final fallback; \<^verbatim>\<open>assigned_today\<close> is not updated.\<close>

definition assign_again :: "string \<Rightarrow> cell_state \<Rightarrow> cell_state" where
  "assign_again emp st =
     st\<lparr>shift_list := shift_list st @ [emp],
        assigned_count := (assigned_count st)(emp := assigned_count st emp + 1),
        placed := placed st + 1\<rparr>"

text \<open>Lines 129-137: the walk over \<^verbatim>\<open>ordered\<close>.\<close>

fun assign_ordered :: "string list \<Rightarrow> cell_state \<Rightarrow> cell_state" where
  "assign_ordered [] st = st"
| "assign_ordered (emp # rest) st =
     (if assigned_count st emp \<ge> 5 \<or> emp \<in> assigned_today st then assign_ordered rest st
      else let st' = assign emp st in if placed st' \<ge> 2 then st' else assign_ordered rest st')"

text \<open>Lines 140-147: the loop of the first fallback.\<close>

fun first_fallback :: "string list \<Rightarrow> cell_state \<Rightarrow> cell_state" where
  "first_fallback [] st = st"
| "first_fallback (emp # rest) st =
     (if placed st \<ge> 2 then st
      else if assigned_count st emp < 5 \<and> emp \<notin> assigned_today st
      then first_fallback rest (assign emp st)
      else first_fallback rest st)"

text \<open>Lines 150-156: the loop of the final fallback.\<close>

fun final_fallback :: "string list \<Rightarrow> cell_state \<Rightarrow> cell_state" where
  "final_fallback [] st = st"
| "final_fallback (emp # rest) st =
     (if placed st \<ge> 2 then st
      else if assigned_count st emp < 5
      then final_fallback rest (assign_again emp st)
      else final_fallback rest st)"

text \<open>Lines 111-156: the body of the loop over the shifts, for one cell.\<close>

definition fill_shift ::
  "(string \<times> (string \<times> string list) list) list \<Rightarrow> string list \<Rightarrow> string \<Rightarrow> string
     \<Rightarrow> cell_state \<Rightarrow> error + cell_state" where
  "fill_shift preferences employees day shift st =
     (case ordered_candidates preferences employees day shift st of
        Inl e \<Rightarrow> Inl e
      | Inr ordered \<Rightarrow>
          (let st1 = assign_ordered ordered (st\<lparr>shift_list := [], placed := 0\<rparr>);
               st2 = (if placed st1 < 2 then first_fallback employees st1 else st1);
               st3 = (if placed st2 < 2
                      then final_fallback employees
                             (st2\<lparr>last_resort_cells := last_resort_cells st2 @ [(day, shift)]\<rparr>)
                      else st2)
           in Inr st3))"

text \<open>
  The same body with the first fallback (lines 139-147) removed: the function that
  claim C10 compares with \<open>fill_shift\<close>.
\<close>

definition fill_shift_without_first_fallback ::
  "(string \<times> (string \<times> string list) list) list \<Rightarrow> string list \<Rightarrow> string \<Rightarrow> string
     \<Rightarrow> cell_state \<Rightarrow> error + cell_state" where
  "fill_shift_without_first_fallback preferences employees day shift st =
     (case ordered_candidates preferences employees day shift st of
        Inl e \<Rightarrow> Inl e
      | Inr ordered \<Rightarrow>
          (let st1 = assign_ordered ordered (st\<lparr>shift_list := [], placed := 0\<rparr>);
               st3 = (if placed st1 < 2
                      then final_fallback employees
                             (st1\<lparr>last_resort_cells := last_resort_cells st1 @ [(day, shift)]\<rparr>)
                      else st1)
           in Inr st3))"

text \<open>
  Lines 110-156, the loop over the shifts of one day, and lines 108-156, the loop over the
  days, for a cell body \<open>body\<close>. The result lists the cells in the order of the loops,
  which is the order of the keys of \<^verbatim>\<open>schedule\<close> (line 106).
\<close>

fun run_shifts ::
  "(string \<Rightarrow> string \<Rightarrow> cell_state \<Rightarrow> error + cell_state) \<Rightarrow> string \<Rightarrow> string list \<Rightarrow> cell_state
     \<Rightarrow> error + ((string \<times> string list) list \<times> cell_state)" where
  "run_shifts body day [] st = Inr ([], st)"
| "run_shifts body day (shift # rest) st =
     (case body day shift st of
        Inl e \<Rightarrow> Inl e
      | Inr st' \<Rightarrow>
          (case run_shifts body day rest st' of
             Inl e \<Rightarrow> Inl e
           | Inr (cells, st'') \<Rightarrow> Inr ((shift, shift_list st') # cells, st'')))"

fun run_days ::
  "(string \<Rightarrow> string \<Rightarrow> cell_state \<Rightarrow> error + cell_state) \<Rightarrow> string list \<Rightarrow> cell_state
     \<Rightarrow> error + ((string \<times> (string \<times> string list) list) list \<times> cell_state)" where
  "run_days body [] st = Inr ([], st)"
| "run_days body (day # rest) st =
     (case run_shifts body day VALID_SHIFTS (st\<lparr>assigned_today := {}\<rparr>) of
        Inl e \<Rightarrow> Inl e
      | Inr (cells, st') \<Rightarrow>
          (case run_days body rest st' of
             Inl e \<Rightarrow> Inl e
           | Inr (schedule, st'') \<Rightarrow> Inr ((day, cells) # schedule, st'')))"

definition initial_state :: cell_state where
  "initial_state =
     \<lparr>shift_list = [], assigned_count = (\<lambda>emp. 0), assigned_today = {}, placed = 0,
      last_resort_cells = []\<rparr>"

text \<open>
  \<^verbatim>\<open>generate_schedule\<close> for a cell body that is given the preferences and the employees;
  \<open>run_schedule\<close> is the source's function together with the final state.
\<close>

definition run_schedule_with ::
  "((string \<times> (string \<times> string list) list) list \<Rightarrow> string list \<Rightarrow> string \<Rightarrow> string
      \<Rightarrow> cell_state \<Rightarrow> error + cell_state)
     \<Rightarrow> pyval \<Rightarrow> error + ((string \<times> (string \<times> string list) list) list \<times> cell_state)" where
  "run_schedule_with body raw_preferences =
     (case raw_preferences of
        PDict _ \<Rightarrow>
          (case collect_employee_preferences raw_preferences of
             Inl e \<Rightarrow> Inl e
           | Inr preferences \<Rightarrow>
               (let employees = map fst preferences in
                if length employees < 6 then Inl InsufficientStaff
                else run_days (body preferences employees) DAYS_OF_WEEK initial_state))
      | _ \<Rightarrow> Inl InvalidInput)"

definition run_schedule ::
  "pyval \<Rightarrow> error + ((string \<times> (string \<times> string list) list) list \<times> cell_state)" where
  "run_schedule raw_preferences = run_schedule_with fill_shift raw_preferences"

definition generate_schedule ::
  "pyval \<Rightarrow> error + (string \<times> (string \<times> string list) list) list" where
  "generate_schedule raw_preferences =
     (case run_schedule raw_preferences of
        Inl e \<Rightarrow> Inl e
      | Inr (schedule, st) \<Rightarrow> Inr schedule)"

definition generate_schedule_without_first_fallback ::
  "pyval \<Rightarrow> error + (string \<times> (string \<times> string list) list) list" where
  "generate_schedule_without_first_fallback raw_preferences =
     (case run_schedule_with fill_shift_without_first_fallback raw_preferences of
        Inl e \<Rightarrow> Inl e
      | Inr (schedule, st) \<Rightarrow> Inr schedule)"

text \<open>Whether the final fallback was entered during the run (\<open>False\<close> when the run raises).\<close>

definition last_resort_used :: "pyval \<Rightarrow> bool" where
  "last_resort_used raw_preferences =
     (case run_schedule raw_preferences of
        Inl e \<Rightarrow> False
      | Inr (schedule, st) \<Rightarrow> last_resort_cells st \<noteq> [])"

text \<open>All entries of a schedule, and the entries of one day.\<close>

definition day_entries :: "(string \<times> string list) list \<Rightarrow> string list" where
  "day_entries cells = concat (map snd cells)"

definition all_entries :: "(string \<times> (string \<times> string list) list) list \<Rightarrow> string list" where
  "all_entries schedule = concat (map (\<lambda>d. day_entries (snd d)) schedule)"



section \<open>Properties of the normalizer\<close>

lemma VALID_SHIFTS_facts:
  "distinct VALID_SHIFTS" "length VALID_SHIFTS = 3"
  "set VALID_SHIFTS = {''morning'', ''afternoon'', ''evening''}"
  by (auto simp: VALID_SHIFTS_def)


lemma sorted_names_morning:
  "sorted_names ((''morning'', 1) # rank_others VALID_SHIFTS ''morning'' 2)
     = ''morning'' # filter (\<lambda>x. x \<noteq> ''morning'') VALID_SHIFTS"
  by code_simp

lemma sorted_names_afternoon:
  "sorted_names ((''afternoon'', 1) # rank_others VALID_SHIFTS ''afternoon'' 2)
     = ''afternoon'' # filter (\<lambda>x. x \<noteq> ''afternoon'') VALID_SHIFTS"
  by code_simp

lemma sorted_names_evening:
  "sorted_names ((''evening'', 1) # rank_others VALID_SHIFTS ''evening'' 2)
     = ''evening'' # filter (\<lambda>x. x \<noteq> ''evening'') VALID_SHIFTS"
  by code_simp

lemma sorted_names_str:
  assumes "s \<in> set VALID_SHIFTS"
  shows "sorted_names ((s, 1) # rank_others VALID_SHIFTS s 2) = s # filter (\<lambda>x. x \<noteq> s) VALID_SHIFTS"
proof -
  from assms have "s = ''morning'' \<or> s = ''afternoon'' \<or> s = ''evening''"
    by (simp add: VALID_SHIFTS_facts(3))
  then show ?thesis
    using sorted_names_morning sorted_names_afternoon sorted_names_evening by blast
qed

lemma normalize_pref_str:
  "strip (lower str) \<in> set VALID_SHIFTS \<Longrightarrow>
   normalize_pref (PStr str) =
     Inr (strip (lower str) # filter (\<lambda>x. x \<noteq> strip (lower str)) VALID_SHIFTS)"
  by (simp add: Let_def sorted_names_str)













lemma normalize_days_entry_raw:
  "normalize_days dm = Inr nd \<Longrightarrow> (day, v) \<in> set dm \<Longrightarrow>
   \<exists>ranked. (day, ranked) \<in> set nd \<and> normalize_pref v = Inr ranked"
proof (induction dm arbitrary: nd)
  case Nil
  then show ?case by simp
next
  case (Cons kv rest)
  obtain d w where kv: "kv = (d, w)" by (cases kv)
  from Cons.prems(1) obtain r ds where r: "normalize_pref w = Inr r"
    and ds: "normalize_days rest = Inr ds" and nd: "nd = (d, r) # ds"
    unfolding kv by (auto split: if_splits sum.splits)
  from Cons.prems(2) kv have "(day, v) = (d, w) \<or> (day, v) \<in> set rest" by simp
  then show ?case
  proof
    assume "(day, v) = (d, w)"
    with r nd show ?thesis by auto
  next
    assume "(day, v) \<in> set rest"
    from Cons.IH[OF ds this] nd show ?thesis by auto
  qed
qed

lemma collect_employee_Inr:
  assumes "collect_employee entry = Inr r"
  shows "\<exists>dm. entry = (fst r, PDict dm) \<and> normalize_days dm = Inr (snd r)
          \<and> strip (fst r) \<noteq> [] \<and> post_check (snd r)
          \<and> list_all (\<lambda>d. d \<in> fst ` set dm) DAYS_OF_WEEK"
proof -
  obtain e v where ev: "entry = (e, v)" by (cases entry)
  from assms ev obtain dm where "v = PDict dm" by (cases v) auto
  with assms ev show ?thesis by (auto split: if_splits sum.splits)
qed

lemma collect_employees_keys:
  "collect_employees raw = Inr normalized \<Longrightarrow> map fst normalized = map fst raw"
proof (induction raw arbitrary: normalized)
  case Nil
  then show ?case by simp
next
  case (Cons entry rest)
  from Cons.prems obtain n ns where n: "collect_employee entry = Inr n"
    and ns: "collect_employees rest = Inr ns" and eq: "normalized = n # ns"
    by (auto split: sum.splits)
  from collect_employee_Inr[OF n] have "fst entry = fst n" by auto
  with Cons.IH[OF ns] eq show ?case by simp
qed


lemma collect_employees_entry_raw:
  "collect_employees raw = Inr normalized \<Longrightarrow> (emp, PDict dm) \<in> set raw \<Longrightarrow>
   \<exists>nd. (emp, nd) \<in> set normalized \<and> normalize_days dm = Inr nd"
proof (induction raw arbitrary: normalized)
  case Nil
  then show ?case by simp
next
  case (Cons entry rest)
  from Cons.prems(1) obtain n ns where n: "collect_employee entry = Inr n"
    and ns: "collect_employees rest = Inr ns" and eq: "normalized = n # ns"
    by (auto split: sum.splits)
  from Cons.prems(2) have "(emp, PDict dm) = entry \<or> (emp, PDict dm) \<in> set rest" by auto
  then show ?case
  proof
    assume "(emp, PDict dm) = entry"
    with collect_employee_Inr[OF n] eq show ?thesis by (cases n) auto
  next
    assume "(emp, PDict dm) \<in> set rest"
    from Cons.IH[OF ns this] eq show ?thesis by auto
  qed
qed

lemma collect_employee_preferences_Inr:
  assumes "collect_employee_preferences raw = Inr normalized"
  shows "\<exists>emps. raw = PDict emps \<and> emps \<noteq> [] \<and> collect_employees emps = Inr normalized
           \<and> distinct (map (\<lambda>n. lower (strip n)) (map fst emps))"
proof -
  from assms obtain emps where raw: "raw = PDict emps" by (cases raw) auto
  define names where "names = map (\<lambda>n. lower (strip n)) (map fst emps)"
  from assms have ne: "emps \<noteq> []" and len: "length names = length (remdups names)"
    and c: "collect_employees emps = Inr normalized"
    unfolding raw names_def by (simp_all add: Let_def split: if_splits)
  from len have "length (remdups names) = length names" by simp
  then have "distinct names" by (simp add: remdups_id_iff_distinct)
  with raw ne c show ?thesis unfolding names_def by blast
qed

subsection \<open>Every rejection is an \<open>InvalidInput\<close>\<close>























section \<open>Properties of the tie-breaker\<close>

text \<open>The rounding never exceeds its argument by more than one part in \<open>2^53\<close>, so the index drawn for a loop counter \<open>m\<close> is below \<open>m\<close> and the swap never raises.\<close>

lemma pow2_pos: "0 < pow2 e"
  by (simp add: pow2_def)

lemma pow2_add: "pow2 (a + b) = pow2 a * pow2 b"
proof -
  have "pow2 e = 2 powi e" for e
    by (simp add: pow2_def power_int_def inverse_eq_divide power_one_over)
  then show ?thesis by (simp add: power_int_add)
qed

lemma pow2_nat: "pow2 (int n) = 2 ^ n"
  by (simp add: pow2_def)

lemma pow2_neg_nat: "pow2 (- int n) = 1 / 2 ^ n"
  by (simp add: pow2_def)

lemma binade_le:
  assumes "0 < q"
  shows "pow2 (binade q) \<le> q"
proof (cases "1 \<le> q")
  case True
  define n where "n = nat \<lfloor>q\<rfloor>"
  define j where "j = floorlog 2 n"
  from True have n: "0 < n" "of_nat n \<le> q" by (simp_all add: n_def)
  from floorlog_bounds[of n 2] n have le: "2 ^ (j - 1) \<le> n" by (simp add: j_def)
  from n have j: "0 < j" by (simp add: j_def floorlog_def)
  have "(of_nat (2 ^ (j - 1)) :: rat) \<le> of_nat n" using le by (simp only: of_nat_le_iff)
  then have "(2::rat) ^ (j - 1) \<le> of_nat n" by simp
  moreover from j have "int j - 1 = int (j - 1)" by simp
  ultimately have "pow2 (int j - 1) \<le> of_nat n" by (simp only: pow2_nat)
  with n(2) have "pow2 (int j - 1) \<le> q" by linarith
  with True show ?thesis by (simp add: binade_def n_def j_def)
next
  case False
  define c where "c = \<lceil>1 / q\<rceil>"
  define n where "n = nat (c - 1)"
  define j where "j = floorlog 2 n"
  from False assms have "1 < 1 / q" by simp
  then have c2: "2 \<le> c" unfolding c_def by linarith
  then have n: "0 < n" "c = int (Suc n)" by (simp_all add: n_def)
  have qc: "1 / q \<le> of_int c" unfolding c_def by simp
  from floorlog_bounds[of n 2] n have "n < 2 ^ j" by (simp add: j_def)
  then have "Suc n \<le> 2 ^ j" by simp
  then have "(of_nat (Suc n) :: rat) \<le> of_nat (2 ^ j)" by (simp only: of_nat_le_iff)
  then have "(of_nat (Suc n) :: rat) \<le> 2 ^ j" by simp
  moreover have "(of_int c :: rat) = of_nat (Suc n)" by (simp only: n(2) of_int_of_nat_eq)
  ultimately have "1 / q \<le> 2 ^ j" using qc by simp
  with assms have "1 / 2 ^ j \<le> q" by (simp add: field_simps)
  with False show ?thesis by (simp add: binade_def pow2_neg_nat c_def n_def j_def)
qed

lemma round_half_even_le: "of_int (round_half_even y) \<le> y + 1 / 2"
proof -
  define f where "f = \<lfloor>y\<rfloor>"
  define d where "d = y - of_int f"
  have f: "of_int f \<le> y" by (simp add: f_def)
  consider "d < 1 / 2" | "1 / 2 < d" | "d = 1 / 2" by linarith
  then show ?thesis
  proof cases
    case 1
    then have "round_half_even y = f" by (simp add: round_half_even_def Let_def f_def d_def)
    with f show ?thesis by simp
  next
    case 2
    then have "round_half_even y = f + 1"
      by (simp add: round_half_even_def Let_def f_def d_def)
    with 2 show ?thesis by (simp add: d_def)
  next
    case 3
    then have "round_half_even y = f \<or> round_half_even y = f + 1"
      by (simp add: round_half_even_def Let_def f_def d_def)
    with 3 f show ?thesis by (auto simp: d_def)
  qed
qed

lemma round_half_even_nonneg: "0 \<le> y \<Longrightarrow> 0 \<le> round_half_even y"
  by (auto simp: round_half_even_def Let_def)

lemma fl_nonneg: "0 \<le> fl q"
proof (cases "q \<le> 0")
  case True
  then show ?thesis by (simp add: fl_def)
next
  case False
  then have "0 \<le> q / pow2 (binade q - 52)" using pow2_pos[of "binade q - 52"] by simp
  from round_half_even_nonneg[OF this] False show ?thesis
    using pow2_pos[of "binade q - 52"] by (simp add: fl_def Let_def)
qed

lemma fl_upper:
  assumes "0 \<le> q"
  shows "fl q \<le> q * (1 + 1 / 2 ^ 53)"
proof (cases "q = 0")
  case True
  then show ?thesis by (simp add: fl_def)
next
  case False
  with assms have q: "0 < q" by simp
  define e where "e = binade q - 52"
  define y where "y = q / pow2 e"
  have pe: "0 < pow2 e" by (rule pow2_pos)
  have "pow2 (binade q) = pow2 e * 2 ^ 52"
    using pow2_add[of e 52] by (simp add: e_def pow2_def)
  with binade_le[OF q] have "pow2 e * 2 ^ 52 \<le> q" by simp
  then have y52: "2 ^ 52 \<le> y" using pe by (simp add: y_def field_simps)
  have "fl q = of_int (round_half_even y) * pow2 e"
    using q by (simp add: fl_def Let_def e_def y_def)
  also have "\<dots> \<le> (y + 1 / 2) * pow2 e"
    using round_half_even_le[of y] pe by (simp add: mult_right_mono)
  also have "\<dots> \<le> (y + y / 2 ^ 53) * pow2 e"
  proof -
    from y52 have "1 / 2 \<le> y / 2 ^ 53" by simp
    then show ?thesis using pe by (simp add: mult_right_mono)
  qed
  also have "\<dots> = q * (1 + 1 / 2 ^ 53)"
    using pe by (simp add: y_def field_simps)
  finally show ?thesis .
qed

lemma rand_index_less:
  assumes "0 < m"
  shows "rand_index s m < m"
proof -
  define k where "k = \<bar>s\<bar> mod 1000"
  define x where "x = (of_int k :: rat) / 1000"
  define u where "u = (1 + 1 / 2 ^ 53 :: rat)"
  have k: "0 \<le> k" "k \<le> 999" by (simp_all add: k_def) 
  then have x: "0 \<le> x" "x \<le> 999 / 1000" by (simp_all add: x_def)
  have u: "1 \<le> u" "u * u * u < 1000 / 999" by (simp_all add: u_def)
  have M: "0 < (of_nat m :: rat)" using assms by simp
  have a: "fl x \<le> x * u" using fl_upper[OF x(1)] by (simp add: u_def)
  have b: "fl (of_nat m) \<le> of_nat m * u" using fl_upper[of "of_nat m"] by (simp add: u_def)
  have "fl x * fl (of_nat m) \<le> (x * u) * (of_nat m * u)"
    using a b fl_nonneg[of x] fl_nonneg[of "of_nat m"] by (intro mult_mono) (auto intro: order_trans)
  moreover have "0 \<le> fl x * fl (of_nat m)" using fl_nonneg by simp
  ultimately have PQ: "fl x * fl (of_nat m) \<le> (x * u) * (of_nat m * u)"
    and P0: "0 \<le> fl x * fl (of_nat m)" by simp_all
  have "fl (fl x * fl (of_nat m)) \<le> fl x * fl (of_nat m) * u"
    using fl_upper[OF P0] by (simp add: u_def)
  also have "\<dots> \<le> (x * u) * (of_nat m * u) * u"
    using PQ u(1) by (intro mult_right_mono) auto
  also have "\<dots> = x * of_nat m * (u * u * u)" by simp
  also have "\<dots> \<le> 999 / 1000 * of_nat m * (u * u * u)"
    using x(2) M u(1) by (intro mult_right_mono) auto
  also have "\<dots> < 999 / 1000 * of_nat m * (1000 / 999)"
    using u(2) M by (intro mult_strict_left_mono) auto
  also have "\<dots> = of_nat m" by simp
  finally have "fl (fl x * fl (of_nat m)) < of_nat m" .
  then have "\<lfloor>fl (fl x * fl (of_nat m))\<rfloor> < int m"
    by (simp add: floor_less_iff)
  moreover have "0 \<le> \<lfloor>fl (fl x * fl (of_nat m))\<rfloor>" using fl_nonneg by simp
  ultimately show ?thesis by (simp add: rand_index_def x_def k_def nat_less_iff)
qed


lemma shuffle_loop_perm:
  "m \<le> length arr \<Longrightarrow> \<exists>r. shuffle_loop m s arr = Inr r \<and> mset r = mset arr"
proof (induction m arbitrary: s arr)
  case 0
  then show ?case by simp
next
  case (Suc m)
  define s' where "s' = xorshift s"
  define i where "i = rand_index s' (Suc m)"
  have i: "i < Suc m" unfolding i_def by (rule rand_index_less) simp
  with Suc.prems have il: "i < length arr" and ml: "m < length arr" by simp_all
  define arr' where "arr' = arr[m := arr ! i, i := arr ! m]"
  have "mset arr' = mset arr" unfolding arr'_def using il ml by (simp add: mset_swap)
  moreover have "m \<le> length arr'" using ml by (simp add: arr'_def)
  from Suc.IH[OF this] obtain r where "shuffle_loop m s' arr' = Inr r" "mset r = mset arr'"
    by blast
  moreover have "shuffle_loop (Suc m) s arr = shuffle_loop m s' arr'"
    using il ml by (simp add: Let_def s'_def i_def arr'_def)
  ultimately show ?case by simp
qed

lemma deterministic_shuffle_perm:
  "\<exists>r. deterministic_shuffle arr seed = Inr r \<and> mset r = mset arr"
  unfolding deterministic_shuffle_def by (rule shuffle_loop_perm) simp



section \<open>Properties of the assignment engine\<close>

subsection \<open>The three loops of one cell\<close>

lemma assign_simps:
  "shift_list (assign emp st) = shift_list st @ [emp]"
  "assigned_count (assign emp st) = (assigned_count st)(emp := assigned_count st emp + 1)"
  "assigned_today (assign emp st) = insert emp (assigned_today st)"
  "placed (assign emp st) = placed st + 1"
  "last_resort_cells (assign emp st) = last_resort_cells st"
  by (simp_all add: assign_def)

lemma assign_again_simps:
  "shift_list (assign_again emp st) = shift_list st @ [emp]"
  "assigned_count (assign_again emp st) = (assigned_count st)(emp := assigned_count st emp + 1)"
  "assigned_today (assign_again emp st) = assigned_today st"
  "placed (assign_again emp st) = placed st + 1"
  "last_resort_cells (assign_again emp st) = last_resort_cells st"
  by (simp_all add: assign_again_def)

lemma assign_ordered_trace:
  "\<exists>new. shift_list (assign_ordered ord st) = shift_list st @ new
     \<and> placed (assign_ordered ord st) = placed st + length new
     \<and> assigned_count (assign_ordered ord st) = (\<lambda>e. assigned_count st e + count_list new e)
     \<and> assigned_today (assign_ordered ord st) = assigned_today st \<union> set new
     \<and> last_resort_cells (assign_ordered ord st) = last_resort_cells st
     \<and> distinct new \<and> set new \<inter> assigned_today st = {} \<and> set new \<subseteq> set ord
     \<and> (\<forall>e \<in> set new. assigned_count st e < 5)"
proof (induction ord arbitrary: st)
  case Nil
  show ?case by (rule exI[of _ "[]"]) simp
next
  case (Cons x rest)
  show ?case
  proof (cases "assigned_count st x \<ge> 5 \<or> x \<in> assigned_today st")
    case True
    then have eq: "assign_ordered (x # rest) st = assign_ordered rest st" by simp
    from Cons.IH[of st] obtain new where n: "shift_list (assign_ordered rest st) = shift_list st @ new"
      "placed (assign_ordered rest st) = placed st + length new"
      "assigned_count (assign_ordered rest st) = (\<lambda>e. assigned_count st e + count_list new e)"
      "assigned_today (assign_ordered rest st) = assigned_today st \<union> set new"
      "last_resort_cells (assign_ordered rest st) = last_resort_cells st"
      "distinct new" "set new \<inter> assigned_today st = {}" "set new \<subseteq> set rest"
      "\<forall>e \<in> set new. assigned_count st e < 5" by blast
    show ?thesis unfolding eq
      by (rule exI[of _ new]) (use n in auto)
  next
    case False
    define st1 where "st1 = assign x st"
    show ?thesis
    proof (cases "placed st1 \<ge> 2")
      case True
      with False have eq: "assign_ordered (x # rest) st = st1" by (simp add: Let_def st1_def)
      show ?thesis unfolding eq
        by (rule exI[of _ "[x]"]) (use False in \<open>auto simp: st1_def assign_simps\<close>)
    next
      case p: False
      with False have eq: "assign_ordered (x # rest) st = assign_ordered rest st1"
        by (simp add: Let_def st1_def)
      from Cons.IH[of st1] obtain new where n:
        "shift_list (assign_ordered rest st1) = shift_list st1 @ new"
        "placed (assign_ordered rest st1) = placed st1 + length new"
        "assigned_count (assign_ordered rest st1) = (\<lambda>e. assigned_count st1 e + count_list new e)"
        "assigned_today (assign_ordered rest st1) = assigned_today st1 \<union> set new"
        "last_resort_cells (assign_ordered rest st1) = last_resort_cells st1"
        "distinct new" "set new \<inter> assigned_today st1 = {}" "set new \<subseteq> set rest"
        "\<forall>e \<in> set new. assigned_count st1 e < 5" by blast
      have x: "x \<notin> set new" using n(7) by (auto simp: st1_def assign_simps)
      have c: "\<forall>e \<in> set new. assigned_count st e < 5"
      proof
        fix e assume e: "e \<in> set new"
        with x have "e \<noteq> x" by blast
        moreover from n(9) e have "assigned_count st1 e < 5" by blast
        ultimately show "assigned_count st e < 5" by (simp add: st1_def assign_simps)
      qed
      show ?thesis unfolding eq
      proof (rule exI[of _ "x # new"], intro conjI)
        show "shift_list (assign_ordered rest st1) = shift_list st @ x # new"
          using n(1) by (simp add: st1_def assign_simps)
        show "placed (assign_ordered rest st1) = placed st + length (x # new)"
          using n(2) by (simp add: st1_def assign_simps)
        show "assigned_count (assign_ordered rest st1)
            = (\<lambda>e. assigned_count st e + count_list (x # new) e)"
          unfolding n(3) by (auto simp: st1_def assign_simps fun_eq_iff)
        show "assigned_today (assign_ordered rest st1) = assigned_today st \<union> set (x # new)"
          using n(4) by (simp add: st1_def assign_simps)
        show "last_resort_cells (assign_ordered rest st1) = last_resort_cells st"
          using n(5) by (simp add: st1_def assign_simps)
        show "distinct (x # new)" using n(6) x by simp
        show "set (x # new) \<inter> assigned_today st = {}"
          using n(7) False by (auto simp: st1_def assign_simps)
        show "set (x # new) \<subseteq> set (x # rest)" using n(8) by auto
        show "\<forall>e \<in> set (x # new). assigned_count st e < 5" using c False by auto
      qed
    qed
  qed
qed


lemma first_fallback_trace:
  "\<exists>new. shift_list (first_fallback emps st) = shift_list st @ new
     \<and> placed (first_fallback emps st) = placed st + length new
     \<and> assigned_count (first_fallback emps st) = (\<lambda>e. assigned_count st e + count_list new e)
     \<and> assigned_today (first_fallback emps st) = assigned_today st \<union> set new
     \<and> last_resort_cells (first_fallback emps st) = last_resort_cells st
     \<and> distinct new \<and> set new \<inter> assigned_today st = {} \<and> set new \<subseteq> set emps
     \<and> (\<forall>e \<in> set new. assigned_count st e < 5)"
proof (induction emps arbitrary: st)
  case Nil
  show ?case by (rule exI[of _ "[]"]) simp
next
  case (Cons x rest)
  show ?case
  proof (cases "placed st \<ge> 2")
    case True
    then have eq: "first_fallback (x # rest) st = st" by simp
    show ?thesis unfolding eq by (rule exI[of _ "[]"]) simp
  next
    case p: False
    show ?thesis
    proof (cases "assigned_count st x < 5 \<and> x \<notin> assigned_today st")
      case False
      with p have eq: "first_fallback (x # rest) st = first_fallback rest st" by auto
      from Cons.IH[of st] obtain new where n:
        "shift_list (first_fallback rest st) = shift_list st @ new"
        "placed (first_fallback rest st) = placed st + length new"
        "assigned_count (first_fallback rest st) = (\<lambda>e. assigned_count st e + count_list new e)"
        "assigned_today (first_fallback rest st) = assigned_today st \<union> set new"
        "last_resort_cells (first_fallback rest st) = last_resort_cells st"
        "distinct new" "set new \<inter> assigned_today st = {}" "set new \<subseteq> set rest"
        "\<forall>e \<in> set new. assigned_count st e < 5" by blast
      show ?thesis unfolding eq
        by (rule exI[of _ new]) (use n in auto)
    next
      case True
      define st1 where "st1 = assign x st"
      from True p have eq: "first_fallback (x # rest) st = first_fallback rest st1"
        by (simp add: st1_def)
      from Cons.IH[of st1] obtain new where n:
        "shift_list (first_fallback rest st1) = shift_list st1 @ new"
        "placed (first_fallback rest st1) = placed st1 + length new"
        "assigned_count (first_fallback rest st1) = (\<lambda>e. assigned_count st1 e + count_list new e)"
        "assigned_today (first_fallback rest st1) = assigned_today st1 \<union> set new"
        "last_resort_cells (first_fallback rest st1) = last_resort_cells st1"
        "distinct new" "set new \<inter> assigned_today st1 = {}" "set new \<subseteq> set rest"
        "\<forall>e \<in> set new. assigned_count st1 e < 5" by blast
      have x: "x \<notin> set new" using n(7) by (auto simp: st1_def assign_simps)
      have c: "\<forall>e \<in> set new. assigned_count st e < 5"
      proof
        fix e assume e: "e \<in> set new"
        with x have "e \<noteq> x" by blast
        moreover from n(9) e have "assigned_count st1 e < 5" by blast
        ultimately show "assigned_count st e < 5" by (simp add: st1_def assign_simps)
      qed
      show ?thesis unfolding eq
      proof (rule exI[of _ "x # new"], intro conjI)
        show "shift_list (first_fallback rest st1) = shift_list st @ x # new"
          using n(1) by (simp add: st1_def assign_simps)
        show "placed (first_fallback rest st1) = placed st + length (x # new)"
          using n(2) by (simp add: st1_def assign_simps)
        show "assigned_count (first_fallback rest st1)
            = (\<lambda>e. assigned_count st e + count_list (x # new) e)"
          unfolding n(3) by (auto simp: st1_def assign_simps fun_eq_iff)
        show "assigned_today (first_fallback rest st1) = assigned_today st \<union> set (x # new)"
          using n(4) by (simp add: st1_def assign_simps)
        show "last_resort_cells (first_fallback rest st1) = last_resort_cells st"
          using n(5) by (simp add: st1_def assign_simps)
        show "distinct (x # new)" using n(6) x by simp
        show "set (x # new) \<inter> assigned_today st = {}"
          using n(7) True by (auto simp: st1_def assign_simps)
        show "set (x # new) \<subseteq> set (x # rest)" using n(8) by auto
        show "\<forall>e \<in> set (x # new). assigned_count st e < 5" using c True by auto
      qed
    qed
  qed
qed

lemma final_fallback_trace:
  "\<exists>new. shift_list (final_fallback emps st) = shift_list st @ new
     \<and> placed (final_fallback emps st) = placed st + length new
     \<and> assigned_count (final_fallback emps st) = (\<lambda>e. assigned_count st e + count_list new e)
     \<and> assigned_today (final_fallback emps st) = assigned_today st
     \<and> last_resort_cells (final_fallback emps st) = last_resort_cells st"
proof (induction emps arbitrary: st)
  case Nil
  show ?case by (rule exI[of _ "[]"]) simp
next
  case (Cons x rest)
  show ?case
  proof (cases "placed st \<ge> 2")
    case True
    then have eq: "final_fallback (x # rest) st = st" by simp
    show ?thesis unfolding eq by (rule exI[of _ "[]"]) simp
  next
    case p: False
    show ?thesis
    proof (cases "assigned_count st x < 5")
      case False
      with p have eq: "final_fallback (x # rest) st = final_fallback rest st" by auto
      from Cons.IH[of st] show ?thesis unfolding eq .
    next
      case True
      define st1 where "st1 = assign_again x st"
      from True p have eq: "final_fallback (x # rest) st = final_fallback rest st1"
        by (simp add: st1_def)
      from Cons.IH[of st1] obtain new where n:
        "shift_list (final_fallback rest st1) = shift_list st1 @ new"
        "placed (final_fallback rest st1) = placed st1 + length new"
        "assigned_count (final_fallback rest st1) = (\<lambda>e. assigned_count st1 e + count_list new e)"
        "assigned_today (final_fallback rest st1) = assigned_today st1"
        "last_resort_cells (final_fallback rest st1) = last_resort_cells st1" by blast
      show ?thesis unfolding eq
      proof (rule exI[of _ "x # new"], intro conjI)
        show "shift_list (final_fallback rest st1) = shift_list st @ x # new"
          using n(1) by (simp add: st1_def assign_again_simps)
        show "placed (final_fallback rest st1) = placed st + length (x # new)"
          using n(2) by (simp add: st1_def assign_again_simps)
        show "assigned_count (final_fallback rest st1)
            = (\<lambda>e. assigned_count st e + count_list (x # new) e)"
          unfolding n(3) by (auto simp: st1_def assign_again_simps fun_eq_iff)
        show "assigned_today (final_fallback rest st1) = assigned_today st"
          using n(4) by (simp add: st1_def assign_again_simps)
        show "last_resort_cells (final_fallback rest st1) = last_resort_cells st"
          using n(5) by (simp add: st1_def assign_again_simps)
      qed
    qed
  qed
qed

lemma assign_ordered_cap:
  "\<forall>e. assigned_count st e \<le> 5 \<Longrightarrow> \<forall>e. assigned_count (assign_ordered ord st) e \<le> 5"
proof (induction ord arbitrary: st)
  case Nil
  then show ?case by simp
next
  case (Cons x rest)
  show ?case
  proof (cases "assigned_count st x \<ge> 5 \<or> x \<in> assigned_today st")
    case True
    with Cons show ?thesis by simp
  next
    case False
    then have "\<forall>e. assigned_count (assign x st) e \<le> 5"
      using Cons.prems by (auto simp: assign_simps)
    from Cons.IH[OF this] this False show ?thesis by (simp add: Let_def)
  qed
qed

lemma first_fallback_cap:
  "\<forall>e. assigned_count st e \<le> 5 \<Longrightarrow> \<forall>e. assigned_count (first_fallback emps st) e \<le> 5"
proof (induction emps arbitrary: st)
  case Nil
  then show ?case by simp
next
  case (Cons x rest)
  show ?case
  proof (cases "placed st < 2 \<and> assigned_count st x < 5 \<and> x \<notin> assigned_today st")
    case True
    then have "\<forall>e. assigned_count (assign x st) e \<le> 5"
      using Cons.prems by (auto simp: assign_simps)
    from Cons.IH[OF this] True show ?thesis by simp
  next
    case False
    with Cons.IH[OF Cons.prems] Cons.prems show ?thesis by auto
  qed
qed

lemma final_fallback_cap:
  "\<forall>e. assigned_count st e \<le> 5 \<Longrightarrow> \<forall>e. assigned_count (final_fallback emps st) e \<le> 5"
proof (induction emps arbitrary: st)
  case Nil
  then show ?case by simp
next
  case (Cons x rest)
  show ?case
  proof (cases "placed st < 2 \<and> assigned_count st x < 5")
    case True
    then have "\<forall>e. assigned_count (assign_again x st) e \<le> 5"
      using Cons.prems by (auto simp: assign_again_simps)
    from Cons.IH[OF this] True show ?thesis by simp
  next
    case False
    with Cons.IH[OF Cons.prems] Cons.prems show ?thesis by auto
  qed
qed

subsection \<open>The candidate order and the first fallback\<close>

lemma ranked_candidates_fst:
  "ranked_candidates P day shift cnt today emps = Inr rm \<Longrightarrow>
   map fst rm = filter (\<lambda>e. \<not> (cnt e \<ge> 5 \<or> e \<in> today)) emps"
proof (induction emps arbitrary: rm)
  case Nil
  then show ?case by simp
next
  case (Cons x rest)
  show ?case
  proof (cases "cnt x \<ge> 5 \<or> x \<in> today")
    case True
    with Cons.prems have "ranked_candidates P day shift cnt today rest = Inr rm" by simp
    from Cons.IH[OF this] True show ?thesis by simp
  next
    case False
    with Cons.prems obtain l rs where "ranked_candidates P day shift cnt today rest = Inr rs"
      and rm: "rm = (x, rank_of l shift) # rs"
      by (auto split: sum.splits)
    from Cons.IH[OF this(1)] rm False show ?thesis by simp
  qed
qed

lemma ranked_candidates_total:
  "\<forall>e \<in> set emps. \<exists>l. lookup_pref P e day = Inr l \<Longrightarrow>
   \<exists>rm. ranked_candidates P day shift cnt today emps = Inr rm"
proof (induction emps)
  case Nil
  then show ?case by simp
next
  case (Cons x rest)
  then obtain rm l where "ranked_candidates P day shift cnt today rest = Inr rm"
    "lookup_pref P x day = Inr l" by auto
  then show ?case by simp
qed

lemma mset_filter_disj_union:
  "\<forall>x. \<not> (P x \<and> Q x) \<Longrightarrow>
   mset (map f (filter P xs)) + mset (map f (filter Q xs))
     = mset (map f (filter (\<lambda>x. P x \<or> Q x) xs))"
  by (induction xs) auto

lemma flatten_ranks_mset:
  "distinct rs \<Longrightarrow>
   \<exists>ord. flatten_ranks rs rm = Inr ord \<and>
     mset ord = mset (map fst (filter (\<lambda>x. snd x \<in> set rs) rm))"
proof (induction rs)
  case Nil
  then show ?case by simp
next
  case (Cons r rs)
  from deterministic_shuffle_perm[of "map fst (filter (\<lambda>x. snd x = r) rm)" 1]
  obtain g where g: "deterministic_shuffle (map fst (filter (\<lambda>x. snd x = r) rm)) 1 = Inr g"
    "mset g = mset (map fst (filter (\<lambda>x. snd x = r) rm))" by blast
  from Cons obtain ord where ord: "flatten_ranks rs rm = Inr ord"
    "mset ord = mset (map fst (filter (\<lambda>x. snd x \<in> set rs) rm))" by auto
  have "\<forall>x. \<not> (snd x = r \<and> snd x \<in> set rs)" using Cons.prems by auto
  from mset_filter_disj_union[OF this, of fst rm]
  have "mset (map fst (filter (\<lambda>x. snd x = r) rm)) + mset (map fst (filter (\<lambda>x. snd x \<in> set rs) rm))
      = mset (map fst (filter (\<lambda>x. snd x \<in> set (r # rs)) rm))"
    by (simp del: mset_map mset_filter)
  with g(2) ord(2) have "mset (g @ ord) = mset (map fst (filter (\<lambda>x. snd x \<in> set (r # rs)) rm))"
    by (simp only: mset_append)
  moreover have "flatten_ranks (r # rs) rm = Inr (g @ ord)" using g(1) ord(1) by simp
  ultimately show ?case by blast
qed

lemma ordered_candidates_mset:
  assumes "ordered_candidates P emps day shift st = Inr ord"
  shows "mset ord
     = mset (filter (\<lambda>e. \<not> (assigned_count st e \<ge> 5 \<or> e \<in> assigned_today st)) emps)"
proof -
  from assms obtain rm where
    rm: "ranked_candidates P day shift (assigned_count st) (assigned_today st) emps = Inr rm"
    and f: "flatten_ranks (sort (remdups (map snd rm))) rm = Inr ord"
    by (auto simp: ordered_candidates_def split: sum.splits)
  have "distinct (sort (remdups (map snd rm)))" by simp
  from flatten_ranks_mset[OF this, of rm] f
  have "mset ord = mset (map fst (filter (\<lambda>x. snd x \<in> set (sort (remdups (map snd rm)))) rm))"
    by simp
  also have "filter (\<lambda>x. snd x \<in> set (sort (remdups (map snd rm)))) rm = rm"
    by (simp add: filter_id_conv)
  finally show ?thesis using ranked_candidates_fst[OF rm] by simp
qed

lemma ordered_candidates_total:
  assumes "\<forall>e \<in> set emps. \<exists>l. lookup_pref P e day = Inr l"
  shows "\<exists>ord. ordered_candidates P emps day shift st = Inr ord"
proof -
  from ranked_candidates_total[OF assms] obtain rm where
    rm: "ranked_candidates P day shift (assigned_count st) (assigned_today st) emps = Inr rm"
    by blast
  have "distinct (sort (remdups (map snd rm)))" by simp
  from flatten_ranks_mset[OF this, of rm] rm show ?thesis
    by (auto simp: ordered_candidates_def)
qed

lemma assign_ordered_mono_count:
  "assigned_count st e \<le> assigned_count (assign_ordered ord st) e"
  using assign_ordered_trace[of ord st] by auto

lemma assign_ordered_mono_today:
  "assigned_today st \<subseteq> assigned_today (assign_ordered ord st)"
  using assign_ordered_trace[of ord st] by auto

lemma assign_ordered_exhausted:
  "placed (assign_ordered ord st) < 2 \<Longrightarrow>
   \<forall>x \<in> set ord. assigned_count (assign_ordered ord st) x \<ge> 5
      \<or> x \<in> assigned_today (assign_ordered ord st)"
proof (induction ord arbitrary: st)
  case Nil
  then show ?case by simp
next
  case (Cons x rest)
  show ?case
  proof (cases "assigned_count st x \<ge> 5 \<or> x \<in> assigned_today st")
    case True
    then have eq: "assign_ordered (x # rest) st = assign_ordered rest st" by simp
    from Cons.prems have "placed (assign_ordered rest st) < 2" by (simp only: eq)
    from Cons.IH[OF this] True assign_ordered_mono_count[of st x rest]
      assign_ordered_mono_today[of st rest]
    show ?thesis unfolding eq by (auto intro: order_trans)
  next
    case False
    define st1 where "st1 = assign x st"
    show ?thesis
    proof (cases "placed st1 \<ge> 2")
      case True
      with False have "assign_ordered (x # rest) st = st1" by (simp add: Let_def st1_def)
      with Cons.prems True show ?thesis by simp
    next
      case p: False
      with False have eq: "assign_ordered (x # rest) st = assign_ordered rest st1"
        by (simp add: Let_def st1_def)
      from Cons.prems have "placed (assign_ordered rest st1) < 2" by (simp only: eq)
      from Cons.IH[OF this] assign_ordered_mono_today[of st1 rest]
      show ?thesis unfolding eq by (auto simp: st1_def assign_simps)
    qed
  qed
qed

lemma first_fallback_noop:
  "\<forall>e \<in> set emps. assigned_count st e \<ge> 5 \<or> e \<in> assigned_today st \<Longrightarrow>
   first_fallback emps st = st"
  by (induction emps) auto

lemma first_fallback_after_walk:
  assumes "ordered_candidates P emps day shift st = Inr ord"
    and "placed (assign_ordered ord (st\<lparr>shift_list := [], placed := 0\<rparr>)) < 2"
  shows "first_fallback emps (assign_ordered ord (st\<lparr>shift_list := [], placed := 0\<rparr>))
     = assign_ordered ord (st\<lparr>shift_list := [], placed := 0\<rparr>)"
proof (rule first_fallback_noop, rule ballI)
  fix e assume e: "e \<in> set emps"
  define st0 where "st0 = st\<lparr>shift_list := [], placed := 0\<rparr>"
  define st1 where "st1 = assign_ordered ord st0"
  have s0: "assigned_count st0 = assigned_count st" "assigned_today st0 = assigned_today st"
    by (simp_all add: st0_def)
  from ordered_candidates_mset[OF assms(1)]
  have "set ord = set (filter (\<lambda>e. \<not> (assigned_count st e \<ge> 5 \<or> e \<in> assigned_today st)) emps)"
    by (rule mset_eq_setD)
  then have ord: "set ord = {e \<in> set emps. \<not> (assigned_count st e \<ge> 5 \<or> e \<in> assigned_today st)}"
    by simp
  have "assigned_count st1 e \<ge> 5 \<or> e \<in> assigned_today st1"
  proof (cases "e \<in> set ord")
    case True
    with assign_ordered_exhausted[of ord st0] assms(2) show ?thesis
      by (simp add: st1_def st0_def)
  next
    case False
    with ord e have "assigned_count st0 e \<ge> 5 \<or> e \<in> assigned_today st0" by (simp add: s0)
    with assign_ordered_mono_count[of st0 e ord] assign_ordered_mono_today[of st0 ord]
    show ?thesis
      unfolding st1_def by (auto intro: order_trans)
  qed
  then show "5 \<le> assigned_count (assign_ordered ord (st\<lparr>shift_list := [], placed := 0\<rparr>)) e \<or>
         e \<in> assigned_today (assign_ordered ord (st\<lparr>shift_list := [], placed := 0\<rparr>))"
    by (simp add: st1_def st0_def)
qed

lemma fill_shift_without_first_fallback_eq:
  "fill_shift_without_first_fallback P emps day shift st = fill_shift P emps day shift st"
proof (cases "ordered_candidates P emps day shift st")
  case (Inl e)
  then show ?thesis by (simp add: fill_shift_def fill_shift_without_first_fallback_def)
next
  case (Inr ord)
  show ?thesis
  proof (cases "placed (assign_ordered ord (st\<lparr>shift_list := [], placed := 0\<rparr>)) < 2")
    case True
    from first_fallback_after_walk[OF Inr True] Inr True show ?thesis
      by (simp add: fill_shift_def fill_shift_without_first_fallback_def Let_def)
  next
    case False
    with Inr show ?thesis
      by (simp add: fill_shift_def fill_shift_without_first_fallback_def Let_def)
  qed
qed

(*ENGINE_LEMMAS*)

section \<open>Claims about the normalizer\<close>




text \<open>
  Claim C2, as the code has it. A single-string raw preference that is accepted equals,
  lower-cased and stripped, one of the three valid shift names; its normalized value is
  that shift first and then the two other shifts in the order of \<open>VALID_SHIFTS\<close>
  (morning, afternoon, evening), not in alphabetical order.
\<close>

theorem single_string_pref_order:
  assumes "collect_employee_preferences (PDict emps) = Inr normalized"
    and "(emp, PDict dm) \<in> set emps" and "(day, PStr str) \<in> set dm"
  shows "strip (lower str) \<in> set VALID_SHIFTS \<and>
         (\<exists>nd. (emp, nd) \<in> set normalized \<and>
            (day, strip (lower str) # filter (\<lambda>x. x \<noteq> strip (lower str)) VALID_SHIFTS) \<in> set nd)"
proof -
  from collect_employee_preferences_Inr[OF assms(1)]
  have c: "collect_employees emps = Inr normalized" by blast
  from collect_employees_entry_raw[OF c assms(2)] obtain nd where
    nd: "(emp, nd) \<in> set normalized" and n: "normalize_days dm = Inr nd" by blast
  from normalize_days_entry_raw[OF n assms(3)] obtain ranked where
    r: "(day, ranked) \<in> set nd" and p: "normalize_pref (PStr str) = Inr ranked" by blast
  from p have v: "strip (lower str) \<in> set VALID_SHIFTS"
    by (auto simp: Let_def split: if_splits)
  from p have "ranked = strip (lower str) # filter (\<lambda>x. x \<noteq> strip (lower str)) VALID_SHIFTS"
    unfolding normalize_pref_str[OF v] by simp
  with v nd r show ?thesis by blast
qed

theorem single_string_pref_order_witness:
  "collect_employee_preferences (PDict [(''Alice'', PDict (same_every_day (PStr '' Evening '')))])
     = Inr [(''Alice'', same_every_day [''evening'', ''morning'', ''afternoon''])]
   \<and> (''Alice'', PDict (same_every_day (PStr '' Evening '')))
       \<in> set [(''Alice'', PDict (same_every_day (PStr '' Evening '')))]
   \<and> (''Monday'', PStr '' Evening '') \<in> set (same_every_day (PStr '' Evening ''))
   \<and> strip (lower '' Evening '') \<in> set VALID_SHIFTS"
proof -
  have h1: "collect_employee_preferences
      (PDict [(''Alice'', PDict (same_every_day (PStr '' Evening '')))])
     = Inr [(''Alice'', same_every_day [''evening'', ''morning'', ''afternoon''])]"
    by code_simp
  have h2: "(''Alice'', PDict (same_every_day (PStr '' Evening '')))
       \<in> set [(''Alice'', PDict (same_every_day (PStr '' Evening '')))]"
    by simp
  have h3: "(''Monday'', PStr '' Evening '') \<in> set (same_every_day (PStr '' Evening ''))"
    by (simp add: same_every_day_def DAYS_OF_WEEK_def)
  from single_string_pref_order[OF h1 h2 h3]
  have "strip (lower '' Evening '') \<in> set VALID_SHIFTS" by blast
  with h1 h2 h3 show ?thesis by blast
qed

text \<open>
  Claim C2 as stated fails: the string \<^verbatim>\<open>"evening"\<close> normalizes to
  evening, morning, afternoon and not to evening, afternoon, morning.
\<close>

theorem evening_string_not_alphabetical:
  "collect_employee_preferences (PDict [(''Alice'', PDict (same_every_day (PStr ''evening'')))])
   = Inr [(''Alice'', same_every_day [''evening'', ''morning'', ''afternoon''])]
   \<and> [''evening'', ''morning'', ''afternoon''] \<noteq> [''evening'', ''afternoon'', ''morning'']"
  by code_simp

text \<open>
  Claim C9, as the code has it. For every accepted input, the keys of the returned
  mapping are the employee identifiers of the input, verbatim and in the same order; the
  stripped, lower-cased form is used only for the test for duplicates.
\<close>

theorem normalized_keys_verbatim:
  assumes "collect_employee_preferences (PDict emps) = Inr normalized"
  shows "map fst normalized = map fst emps"
proof -
  from collect_employee_preferences_Inr[OF assms]
  have "collect_employees emps = Inr normalized" by blast
  then show ?thesis by (rule collect_employees_keys)
qed

theorem normalized_keys_verbatim_witness:
  "collect_employee_preferences (PDict [(''Alice'', PDict (same_every_day PNone))])
     = Inr [(''Alice'', same_every_day [''afternoon'', ''evening'', ''morning''])]
   \<and> map fst [(''Alice'', same_every_day [''afternoon'', ''evening'', ''morning''])]
     = map fst [(''Alice'', PDict (same_every_day PNone))]"
proof -
  have h: "collect_employee_preferences (PDict [(''Alice'', PDict (same_every_day PNone))])
     = Inr [(''Alice'', same_every_day [''afternoon'', ''evening'', ''morning''])]"
    by code_simp
  show ?thesis by (rule conjI[OF h normalized_keys_verbatim[OF h]])
qed

text \<open>
  Claim C9 as stated fails: the key of the employee \<^verbatim>\<open>"Alice"\<close> stays \<^verbatim>\<open>"Alice"\<close>,
  which is not its lower-cased form.
\<close>

theorem key_not_lower_cased:
  "collect_employee_preferences (PDict [(''Alice'', PDict (same_every_day PNone))])
   = Inr [(''Alice'', same_every_day [''afternoon'', ''evening'', ''morning''])]
   \<and> lower ''Alice'' = ''alice'' \<and> ''Alice'' \<noteq> ''alice''"
  by code_simp




section \<open>Claims about the assignment engine\<close>

text \<open>
  Claim C10. The first fallback (lines 139-147) never assigns anyone. Whenever the walk
  over the rank-ordered candidates ends with fewer than two placed, the loop of the first
  fallback leaves the state as the walk left it: every employee is at the cap or placed
  today. So the cell body without the first fallback is the same function, and so is
  \<^verbatim>\<open>generate_schedule\<close> without it.
\<close>

theorem first_fallback_redundant:
  "generate_schedule_without_first_fallback raw = generate_schedule raw
   \<and> fill_shift_without_first_fallback P emps day shift st = fill_shift P emps day shift st
   \<and> (ordered_candidates P emps day shift st = Inr ord \<and>
        placed (assign_ordered ord (st\<lparr>shift_list := [], placed := 0\<rparr>)) < 2
      \<longrightarrow> first_fallback emps (assign_ordered ord (st\<lparr>shift_list := [], placed := 0\<rparr>))
            = assign_ordered ord (st\<lparr>shift_list := [], placed := 0\<rparr>))"
proof (intro conjI impI)
  have "fill_shift_without_first_fallback = fill_shift"
    by (intro ext) (rule fill_shift_without_first_fallback_eq)
  then show "generate_schedule_without_first_fallback raw = generate_schedule raw"
    by (simp add: generate_schedule_without_first_fallback_def generate_schedule_def
        run_schedule_def)
next
  show "fill_shift_without_first_fallback P emps day shift st = fill_shift P emps day shift st"
    by (rule fill_shift_without_first_fallback_eq)
next
  assume "ordered_candidates P emps day shift st = Inr ord \<and>
        placed (assign_ordered ord (st\<lparr>shift_list := [], placed := 0\<rparr>)) < 2"
  then show "first_fallback emps (assign_ordered ord (st\<lparr>shift_list := [], placed := 0\<rparr>))
            = assign_ordered ord (st\<lparr>shift_list := [], placed := 0\<rparr>)"
    using first_fallback_after_walk by blast
qed

theorem first_fallback_redundant_witness:
  "ordered_candidates [(''A'', same_every_day [''morning'', ''afternoon'', ''evening''])] [''A'']
      ''Monday'' ''morning'' initial_state = Inr [''A'']
   \<and> placed (assign_ordered [''A''] (initial_state\<lparr>shift_list := [], placed := 0\<rparr>)) < 2
   \<and> first_fallback [''A''] (assign_ordered [''A''] (initial_state\<lparr>shift_list := [], placed := 0\<rparr>))
       = assign_ordered [''A''] (initial_state\<lparr>shift_list := [], placed := 0\<rparr>)
   \<and> generate_schedule_without_first_fallback (PDict []) = generate_schedule (PDict [])"
proof -
  have h1: "ordered_candidates [(''A'', same_every_day [''morning'', ''afternoon'', ''evening''])]
      [''A''] ''Monday'' ''morning'' initial_state = Inr [''A'']"
    by code_simp
  have h2: "placed (assign_ordered [''A''] (initial_state\<lparr>shift_list := [], placed := 0\<rparr>)) < 2"
    by code_simp
  note t = first_fallback_redundant[of "PDict []"
      "[(''A'', same_every_day [''morning'', ''afternoon'', ''evening''])]" "[''A'']"
      "''Monday''" "''morning''" initial_state "[''A'']"]
  from t have c1: "generate_schedule_without_first_fallback (PDict []) = generate_schedule (PDict [])"
    by (rule conjunct1)
  from t[THEN conjunct2, THEN conjunct2, THEN mp, OF conjI[OF h1 h2]]
  have c2: "first_fallback [''A''] (assign_ordered [''A''] (initial_state\<lparr>shift_list := [], placed := 0\<rparr>))
       = assign_ordered [''A''] (initial_state\<lparr>shift_list := [], placed := 0\<rparr>)" .
  from h1 h2 c2 c1 show ?thesis by (intro conjI)
qed



end
